theory Spec2Isabelle
  imports Complex_Main "HOL-Library.Multiset"
begin

section \<open>JavaScript numbers\<close>

text \<open>
  The chart code of \<^verbatim>\<open>src/App.js\<close> computes with JavaScript numbers. A number is modelled
  as an exact rational or one of the three special values. Finite results are not rounded
  and do not overflow, and there is no negative zero; the special values follow IEEE 754
  (\<^verbatim>\<open>0 / 0\<close> is \<^verbatim>\<open>NaN\<close>, \<^verbatim>\<open>1 / 0\<close> is \<^verbatim>\<open>Infinity\<close>, every comparison with \<^verbatim>\<open>NaN\<close> is false).
\<close>

datatype jsnum = Fin rat | PInf | NInf | NaN

fun jneg :: "jsnum \<Rightarrow> jsnum" where
  "jneg (Fin a) = Fin (- a)"
| "jneg PInf = NInf"
| "jneg NInf = PInf"
| "jneg NaN = NaN"

fun jadd :: "jsnum \<Rightarrow> jsnum \<Rightarrow> jsnum" where
  "jadd NaN b = NaN"
| "jadd a NaN = NaN"
| "jadd (Fin a) (Fin b) = Fin (a + b)"
| "jadd (Fin a) b = b"
| "jadd a (Fin b) = a"
| "jadd PInf PInf = PInf"
| "jadd NInf NInf = NInf"
| "jadd PInf NInf = NaN"
| "jadd NInf PInf = NaN"

definition jsub :: "jsnum \<Rightarrow> jsnum \<Rightarrow> jsnum" where
  "jsub a b = jadd a (jneg b)"

fun jsign :: "jsnum \<Rightarrow> int" where
  "jsign (Fin a) = (if a < 0 then - 1 else if a = 0 then 0 else 1)"
| "jsign PInf = 1"
| "jsign NInf = - 1"
| "jsign NaN = 0"

fun jmul :: "jsnum \<Rightarrow> jsnum \<Rightarrow> jsnum" where
  "jmul NaN b = NaN"
| "jmul a NaN = NaN"
| "jmul (Fin a) (Fin b) = Fin (a * b)"
| "jmul a b =
     (if jsign a * jsign b = 0 then NaN else if jsign a * jsign b < 0 then NInf else PInf)"

fun jdiv :: "jsnum \<Rightarrow> jsnum \<Rightarrow> jsnum" where
  "jdiv NaN b = NaN"
| "jdiv a NaN = NaN"
| "jdiv (Fin a) (Fin b) =
     (if b = 0 then (if a = 0 then NaN else if a < 0 then NInf else PInf) else Fin (a / b))"
| "jdiv (Fin a) b = Fin 0"
| "jdiv a (Fin b) = (if (jsign a < 0) = (b < 0) then PInf else NInf)"
| "jdiv a b = NaN"

fun jlt :: "jsnum \<Rightarrow> jsnum \<Rightarrow> bool" where
  "jlt NaN b = False"
| "jlt a NaN = False"
| "jlt (Fin a) (Fin b) = (a < b)"
| "jlt a PInf = (a \<noteq> PInf)"
| "jlt NInf b = (b \<noteq> NInf)"
| "jlt a b = False"

definition jgt :: "jsnum \<Rightarrow> jsnum \<Rightarrow> bool" where
  "jgt a b = jlt b a"

definition jle :: "jsnum \<Rightarrow> jsnum \<Rightarrow> bool" where
  "jle a b = (a \<noteq> NaN \<and> b \<noteq> NaN \<and> \<not> jlt b a)"

definition jge :: "jsnum \<Rightarrow> jsnum \<Rightarrow> bool" where
  "jge a b = jle b a"

definition Math_max :: "jsnum \<Rightarrow> jsnum \<Rightarrow> jsnum" where
  "Math_max a b = (if a = NaN \<or> b = NaN then NaN else if jlt a b then b else a)"

fun Math_floor :: "jsnum \<Rightarrow> jsnum" where
  "Math_floor (Fin a) = Fin (of_int \<lfloor>a\<rfloor>)"
| "Math_floor a = a"

fun Math_ceil :: "jsnum \<Rightarrow> jsnum" where
  "Math_ceil (Fin a) = Fin (of_int \<lceil>a\<rceil>)"
| "Math_ceil a = a"

definition truthy :: "jsnum \<Rightarrow> bool" where
  "truthy a = (a \<noteq> NaN \<and> a \<noteq> Fin 0)"

text \<open>\<^verbatim>\<open>a || 0\<close> on a number.\<close>

definition orZero :: "jsnum \<Rightarrow> jsnum" where
  "orZero a = (if truthy a then a else Fin 0)"

section \<open>Arrays and strings\<close>

text \<open>
  \<^verbatim>\<open>xs[i]\<close> is \<^verbatim>\<open>undefined\<close> (here \<open>None\<close>) when \<open>i\<close> is not an index of the array.
\<close>

definition elemAt :: "'a list \<Rightarrow> nat \<Rightarrow> 'a option" where
  "elemAt xs i = (if i < length xs then Some (xs ! i) else None)"

text \<open>
  \<^verbatim>\<open>Array.prototype.sort(compareFn)\<close>: the sort is stable, and an element \<open>x\<close> goes after
  \<open>y\<close> only where \<^verbatim>\<open>compareFn(x, y) > 0\<close> (a \<^verbatim>\<open>NaN\<close> result counts as \<^verbatim>\<open>0\<close>). For a consistent
  comparison function the result is determined by the language standard; it is computed
  here by stable insertion.
\<close>

fun insertBy :: "('a \<Rightarrow> 'a \<Rightarrow> jsnum) \<Rightarrow> 'a \<Rightarrow> 'a list \<Rightarrow> 'a list" where
  "insertBy cmp x [] = [x]"
| "insertBy cmp x (y # ys) =
     (if jgt (cmp x y) (Fin 0) then y # insertBy cmp x ys else x # y # ys)"

definition sortBy :: "('a \<Rightarrow> 'a \<Rightarrow> jsnum) \<Rightarrow> 'a list \<Rightarrow> 'a list" where
  "sortBy cmp xs = foldr (insertBy cmp) xs []"

text \<open>
  A text is a list of 8-bit characters: the code units of the file below 256.
  \<open>isSpace\<close> is the class \<^verbatim>\<open>\s\<close> (white space and line terminators) on these characters,
  \<open>isLineTerminator\<close> the characters that \<^verbatim>\<open>.\<close> does not match.
\<close>

definition isSpace :: "char \<Rightarrow> bool" where
  "isSpace c = (c \<in> set [CHR 0x09, CHR 0x0A, CHR 0x0B, CHR 0x0C, CHR 0x0D, CHR 0x20, CHR 0xA0])"

definition isLineTerminator :: "char \<Rightarrow> bool" where
  "isLineTerminator c = (c = CHR 0x0A \<or> c = CHR 0x0D)"

definition isDigit :: "char \<Rightarrow> bool" where
  "isDigit c = (48 \<le> (of_char c :: nat) \<and> (of_char c :: nat) \<le> 57)"

definition trim :: "string \<Rightarrow> string" where
  "trim s = rev (dropWhile isSpace (rev (dropWhile isSpace s)))"

text \<open>\<^verbatim>\<open>text.split('\n')\<close>\<close>

fun split_nl :: "string \<Rightarrow> string list" where
  "split_nl [] = [[]]"
| "split_nl (c # cs) =
     (if c = CHR 0x0A then [] # split_nl cs
      else (case split_nl cs of [] \<Rightarrow> [[c]] | r # rs \<Rightarrow> (c # r) # rs))"

subsection \<open>parseFloat\<close>

text \<open>
  \<^verbatim>\<open>parseFloat\<close> skips leading white space and reads the longest prefix that is a
  \<^verbatim>\<open>StrDecimalLiteral\<close>: an optional sign, then \<^verbatim>\<open>Infinity\<close>, or digits with an optional
  fraction and exponent. Without such a prefix the result is \<^verbatim>\<open>NaN\<close>.
\<close>

definition digitsValue :: "string \<Rightarrow> nat" where
  "digitsValue ds = foldl (\<lambda>acc c. 10 * acc + (of_char c - 48)) 0 ds"

text \<open>The exponent part at the head of the text, if there is one: its sign and its value.\<close>

definition exponentPart :: "string \<Rightarrow> (bool \<times> nat)" where
  "exponentPart s =
     (case s of
        [] \<Rightarrow> (False, 0)
      | e # t \<Rightarrow>
          if e = CHR ''e'' \<or> e = CHR ''E'' then
            (case t of
               [] \<Rightarrow> (False, 0)
             | g # d \<Rightarrow>
                 if g = CHR ''+'' \<and> takeWhile isDigit d \<noteq> [] then
                   (False, digitsValue (takeWhile isDigit d))
                 else if g = CHR ''-'' \<and> takeWhile isDigit d \<noteq> [] then
                   (True, digitsValue (takeWhile isDigit d))
                 else (False, digitsValue (takeWhile isDigit t)))
          else (False, 0))"

definition strUnsignedDecimal :: "string \<Rightarrow> jsnum" where
  "strUnsignedDecimal s =
     (if take 8 s = ''Infinity'' then PInf
      else
        let ip = takeWhile isDigit s;
            r1 = dropWhile isDigit s;
            fp = (case r1 of [] \<Rightarrow> [] | d # t \<Rightarrow> if d = CHR ''.'' then takeWhile isDigit t else []);
            r2 = (case r1 of [] \<Rightarrow> [] | d # t \<Rightarrow> if d = CHR ''.'' then dropWhile isDigit t else r1)
        in if ip = [] \<and> fp = [] then NaN
           else
             let m = (of_nat (digitsValue (ip @ fp)) :: rat) / 10 ^ length fp;
                 ex = exponentPart r2
             in Fin (if fst ex then m / 10 ^ snd ex else m * 10 ^ snd ex))"

definition parseFloat :: "string \<Rightarrow> jsnum" where
  "parseFloat s =
     (case dropWhile isSpace s of
        [] \<Rightarrow> NaN
      | c # t \<Rightarrow>
          if c = CHR ''+'' then strUnsignedDecimal t
          else if c = CHR ''-'' then jneg (strUnsignedDecimal t)
          else strUnsignedDecimal (c # t))"

subsection \<open>The row pattern\<close>

text \<open>
  Each row is matched against \<^verbatim>\<open>/(".*?"|[^",]+)(?=\s*,|\s*$)/g\<close>.

  \<open>lookahead\<close> is \<^verbatim>\<open>(?=\s*,|\s*$)\<close>: after the white space at the head of the rest there
  is a comma or the end of the row (a shorter run of white space is followed by white
  space, so backtracking into \<^verbatim>\<open>\s*\<close> finds nothing more).

  \<open>lazyQuoted\<close> is \<^verbatim>\<open>.*?"\<close> followed by the lookahead, after an opening quote: the shortest
  run of characters other than line terminators that ends in a quote where the lookahead
  holds. \<open>greedyPlain\<close> is \<^verbatim>\<open>[^",]+\<close> followed by the lookahead: the longest such run first,
  then the shorter ones.
\<close>

definition lookahead :: "string \<Rightarrow> bool" where
  "lookahead s = (case dropWhile isSpace s of [] \<Rightarrow> True | c # _ \<Rightarrow> c = CHR 0x2C)"

fun lazyQuoted :: "string \<Rightarrow> string option" where
  "lazyQuoted [] = None"
| "lazyQuoted (c # cs) =
     (if c = CHR 0x22 \<and> lookahead cs then Some [c]
      else if isLineTerminator c then None
      else map_option (Cons c) (lazyQuoted cs))"

fun greedyPlain :: "string \<Rightarrow> string option" where
  "greedyPlain [] = None"
| "greedyPlain (c # cs) =
     (if c = CHR 0x22 \<or> c = CHR 0x2C then None
      else (case greedyPlain cs of
              Some m \<Rightarrow> Some (c # m)
            | None \<Rightarrow> if lookahead cs then Some [c] else None))"

text \<open>The match of the pattern that starts at the head of the text, if there is one.\<close>

definition matchAt :: "string \<Rightarrow> string option" where
  "matchAt s =
     (case s of
        [] \<Rightarrow> None
      | c # cs \<Rightarrow>
          if c = CHR 0x22 then map_option (Cons c) (lazyQuoted cs)
          else greedyPlain s)"

lemma lazyQuoted_nonempty: "lazyQuoted s = Some m \<Longrightarrow> m \<noteq> []"
  by (induction s arbitrary: m) (auto split: if_splits)

lemma greedyPlain_nonempty: "greedyPlain s = Some m \<Longrightarrow> m \<noteq> []"
  by (cases s) (auto split: if_splits option.splits)

lemma matchAt_nonempty: "matchAt s = Some m \<Longrightarrow> m \<noteq> []"
  by (cases s)
    (auto simp: matchAt_def simp del: greedyPlain.simps dest: greedyPlain_nonempty
      split: if_splits)

text \<open>
  The global match: all matches from left to right, the search resuming behind each match
  and one character further where there is none.
\<close>

function matchGlobal :: "string \<Rightarrow> string list" where
  "matchGlobal [] = []"
| "matchGlobal (c # cs) =
     (case matchAt (c # cs) of
        Some m \<Rightarrow> m # matchGlobal (drop (length m) (c # cs))
      | None \<Rightarrow> matchGlobal cs)"
  by pat_completeness auto
termination
proof (relation "measure length")
  show "wf (measure (length :: string \<Rightarrow> nat))" by simp
next
  fix c :: char and cs m :: string
  assume "matchAt (c # cs) = Some m"
  then have "m \<noteq> []" by (rule matchAt_nonempty)
  then have "0 < length m" by simp
  then show "(drop (length m) (c # cs), c # cs) \<in> measure length" by simp
next
  fix c :: char and cs :: string
  show "(cs, c # cs) \<in> measure length" by simp
qed

text \<open>\<^verbatim>\<open>row.match(...)\<close> is \<^verbatim>\<open>null\<close> (here \<open>None\<close>) when the pattern matches nowhere.\<close>

definition rowMatch :: "string \<Rightarrow> string list option" where
  "rowMatch row = (case matchGlobal row of [] \<Rightarrow> None | m # ms \<Rightarrow> Some (m # ms))"

section \<open>The parser: \<^verbatim>\<open>handleFileUpload\<close>\<close>

text \<open>
  The model starts where the file's text has been read (\<^verbatim>\<open>reader.onload\<close>). The debug
  text is left out: it does not change the data.
\<close>

record data_item =
  name :: string
  production :: jsnum
  cost :: jsnum
  highlight :: bool
  id_item :: nat

datatype error = TypeError | RangeError

definition rows :: "string \<Rightarrow> string list option list" where
  "rows text = map rowMatch (split_nl text)"

text \<open>\<^verbatim>\<open>row && row.length >= 4\<close>\<close>

definition keepRow :: "string list option \<Rightarrow> bool" where
  "keepRow row = (case row of None \<Rightarrow> False | Some fs \<Rightarrow> length fs \<ge> 4)"

text \<open>
  The callback of \<^verbatim>\<open>map\<close>. Calling \<^verbatim>\<open>replace\<close> on a missing field, or indexing \<^verbatim>\<open>null\<close>,
  raises a \<^verbatim>\<open>TypeError\<close>; a missing \<^verbatim>\<open>row[3]\<close> is only tested for truth.
\<close>

definition mapRow :: "string list option \<Rightarrow> nat \<Rightarrow> error + data_item" where
  "mapRow row index =
     (case row of
        None \<Rightarrow> Inl TypeError
      | Some fs \<Rightarrow>
          (case (elemAt fs 0, elemAt fs 1, elemAt fs 2) of
             (Some f0, Some f1, Some f2) \<Rightarrow>
               Inr \<lparr>name = trim (filter (\<lambda>c. c \<noteq> CHR 0x22) f0),
                    production =
                      orZero (parseFloat (filter (\<lambda>c. c \<noteq> CHR 0x22 \<and> c \<noteq> CHR 0x2C) f1)),
                    cost = orZero (parseFloat f2),
                    highlight =
                      (case elemAt fs 3 of
                         None \<Rightarrow> False
                       | Some f3 \<Rightarrow> if f3 \<noteq> [] then trim f3 = ''1'' else False),
                    id_item = index\<rparr>
           | _ \<Rightarrow> Inl TypeError))"

text \<open>\<^verbatim>\<open>xs.map((x, index) => f(x, index))\<close>, stopping at the first exception.\<close>

fun mapIndexed :: "('a \<Rightarrow> nat \<Rightarrow> error + 'b) \<Rightarrow> 'a list \<Rightarrow> nat \<Rightarrow> error + 'b list" where
  "mapIndexed f [] i = Inr []"
| "mapIndexed f (x # xs) i =
     (case f x i of
        Inl e \<Rightarrow> Inl e
      | Inr y \<Rightarrow> (case mapIndexed f xs (Suc i) of Inl e \<Rightarrow> Inl e | Inr ys \<Rightarrow> Inr (y # ys)))"

definition keepItem :: "data_item \<Rightarrow> bool" where
  "keepItem item = (jgt (production item) (Fin 0) \<and> jgt (cost item) (Fin 0))"

definition parsedData :: "string \<Rightarrow> error + data_item list" where
  "parsedData text =
     (case mapIndexed mapRow (filter keepRow (drop 1 (rows text))) 0 of
        Inl e \<Rightarrow> Inl e
      | Inr items \<Rightarrow> Inr (filter keepItem items))"

text \<open>The comparison function \<^verbatim>\<open>(a, b) => a.cost - b.cost\<close>.\<close>

definition byCost :: "data_item \<Rightarrow> data_item \<Rightarrow> jsnum" where
  "byCost a b = jsub (cost a) (cost b)"

text \<open>The result is the new value of the state \<^verbatim>\<open>data\<close>.\<close>

definition handleFileUpload :: "string \<Rightarrow> error + data_item list" where
  "handleFileUpload text =
     (case parsedData text of Inl e \<Rightarrow> Inl e | Inr pd \<Rightarrow> Inr (sortBy byCost pd))"

section \<open>The layout\<close>

definition SVG_WIDTH :: jsnum where "SVG_WIDTH = Fin 1200"
definition SVG_HEIGHT :: jsnum where "SVG_HEIGHT = Fin 600"
definition MARGIN_top :: jsnum where "MARGIN_top = Fin 40"
definition MARGIN_right :: jsnum where "MARGIN_right = Fin 30"
definition MARGIN_left :: jsnum where "MARGIN_left = Fin 80"
definition MARGIN_bottom :: jsnum where "MARGIN_bottom = Fin 80"

definition chartWidth :: jsnum where
  "chartWidth = jsub (jsub SVG_WIDTH MARGIN_left) MARGIN_right"

definition chartHeight :: jsnum where
  "chartHeight = jsub (jsub SVG_HEIGHT MARGIN_top) MARGIN_bottom"

record layout_item = data_item +
  cumulativeProduction :: jsnum

record quartile_values =
  q1 :: jsnum
  median :: jsnum
  q3 :: jsnum

record layout_result =
  cumulativeData :: "layout_item list"
  maxCost :: jsnum
  totalProduction :: jsnum
  quartiles :: quartile_values

text \<open>
  The callback of \<^verbatim>\<open>data.map\<close> updates the variables \<^verbatim>\<open>cumulative\<close> and \<^verbatim>\<open>maxCost\<close>; the
  loop passes them on and returns their last values with the new list.
\<close>

fun layoutLoop :: "data_item list \<Rightarrow> jsnum \<Rightarrow> jsnum \<Rightarrow> layout_item list \<times> jsnum \<times> jsnum" where
  "layoutLoop [] cumulative mx = ([], cumulative, mx)"
| "layoutLoop (item # rest) cumulative mx =
     (let result = data_item.extend item \<lparr>cumulativeProduction = cumulative\<rparr>;
          cumulative' = jadd cumulative (production item);
          mx' = Math_max mx (cost item);
          (out, c, m) = layoutLoop rest cumulative' mx'
      in (result # out, c, m))"

text \<open>\<^verbatim>\<open>(a, b) => a - b\<close>\<close>

definition byValue :: "jsnum \<Rightarrow> jsnum \<Rightarrow> jsnum" where
  "byValue a b = jsub a b"

text \<open>\<^verbatim>\<open>sortedCosts[Math.floor(len * p)] || 0\<close>, where a missing element is \<^verbatim>\<open>undefined\<close>.\<close>

definition quantile :: "jsnum list \<Rightarrow> rat \<Rightarrow> jsnum" where
  "quantile sortedCosts p =
     (case elemAt sortedCosts (nat \<lfloor>of_nat (length sortedCosts) * p\<rfloor>) of
        None \<Rightarrow> Fin 0
      | Some v \<Rightarrow> orZero v)"

definition layout :: "data_item list \<Rightarrow> layout_result" where
  "layout data =
     (let (cd, cumulative, mx) = layoutLoop data (Fin 0) (Fin 0);
          sortedCosts = sortBy byValue (map cost cd)
      in \<lparr>cumulativeData = cd, maxCost = mx, totalProduction = cumulative,
          quartiles = \<lparr>q1 = quantile sortedCosts (1 / 4),
                       median = quantile sortedCosts (1 / 2),
                       q3 = quantile sortedCosts (3 / 4)\<rparr>\<rparr>)"

section \<open>The geometry handed to the renderer\<close>

text \<open>
  Each element is modelled by the numbers it is drawn with. \<open>None\<close> stands for \<^verbatim>\<open>null\<close>
  (nothing is drawn).
\<close>

record rect =
  rect_key :: nat
  rect_x :: jsnum
  rect_y :: jsnum
  rect_width :: jsnum
  rect_height :: jsnum
  rect_fill :: string

definition getBars :: "string \<Rightarrow> string \<Rightarrow> layout_result \<Rightarrow> rect list" where
  "getBars barColor highlightColor l =
     (let barPadding = Fin 1 in
      map (\<lambda>item.
        \<lparr>rect_key = id_item item,
         rect_x =
           jadd (jmul (jdiv (cumulativeProduction item) (totalProduction l)) chartWidth)
             MARGIN_left,
         rect_y =
           jsub (jsub SVG_HEIGHT MARGIN_bottom)
             (jmul (jdiv (cost item) (maxCost l)) chartHeight),
         rect_width =
           Math_max
             (jsub (jmul (jdiv (production item) (totalProduction l)) chartWidth) barPadding)
             (Fin 1),
         rect_height = jmul (jdiv (cost item) (maxCost l)) chartHeight,
         rect_fill = (if highlight item then highlightColor else barColor)\<rparr>)
        (cumulativeData l))"

text \<open>
  \<^verbatim>\<open>Array.from({ length: n }, (_, i) => f(i))\<close>: the length is \<^verbatim>\<open>ToLength(n)\<close>, and a length
  above \<open>2\<^sup>3\<^sup>2 - 1\<close> raises a \<^verbatim>\<open>RangeError\<close>.
\<close>

definition toLength :: "jsnum \<Rightarrow> int" where
  "toLength n =
     (case n of
        Fin q \<Rightarrow> if q \<le> 0 then 0 else min \<lfloor>q\<rfloor> (2 ^ 53 - 1)
      | PInf \<Rightarrow> 2 ^ 53 - 1
      | NInf \<Rightarrow> 0
      | NaN \<Rightarrow> 0)"

definition arrayFrom :: "jsnum \<Rightarrow> (nat \<Rightarrow> 'a) \<Rightarrow> error + 'a list" where
  "arrayFrom n f =
     (if toLength n > 2 ^ 32 - 1 then Inl RangeError else Inr (map f [0..<nat (toLength n)]))"

record y_tick =
  tick_value :: jsnum
  tick_y :: jsnum

definition yAxisTicks :: "bool \<Rightarrow> layout_result \<Rightarrow> error + y_tick list option" where
  "yAxisTicks showHorizontalLines l =
     (if \<not> showHorizontalLines then Inr None
      else
        let tickCount = Math_ceil (jdiv (maxCost l) (Fin 500)) in
        (case arrayFrom (jadd tickCount (Fin 1))
                (\<lambda>i. let v = jmul (Fin 500) (Fin (of_nat i)) in
                   \<lparr>tick_value = v,
                    tick_y = jsub (jsub SVG_HEIGHT MARGIN_bottom)
                               (jmul (jdiv v (maxCost l)) chartHeight)\<rparr>) of
           Inl e \<Rightarrow> Inl e
         | Inr ticks \<Rightarrow> Inr (Some ticks)))"

record x_tick =
  tick_i :: jsnum
  tick_x :: jsnum

text \<open>
  \<^verbatim>\<open>for (let i = 0; i <= maxTick; i += tickInterval)\<close>. The loop does not end when
  \<^verbatim>\<open>maxTick\<close> is \<^verbatim>\<open>Infinity\<close>; the result is then \<open>None\<close>.
\<close>

partial_function (option) xAxisLoop :: "jsnum \<Rightarrow> jsnum \<Rightarrow> jsnum \<Rightarrow> x_tick list \<Rightarrow> x_tick list option"
where
  "xAxisLoop i maxTick totalProd ticks =
     (if jle i maxTick then
        xAxisLoop (jadd i (Fin 10000)) maxTick totalProd
          (ticks @
            [\<lparr>tick_i = i, tick_x = jadd (jmul (jdiv i totalProd) chartWidth) MARGIN_left\<rparr>])
      else Some ticks)"

declare xAxisLoop.simps [code]

definition xAxisTicks :: "bool \<Rightarrow> layout_result \<Rightarrow> x_tick list option option" where
  "xAxisTicks showXAxisTickers l =
     (if \<not> showXAxisTickers then Some None
      else
        let tickInterval = Fin 10000;
            maxTick = jmul (Math_floor (jdiv (totalProduction l) tickInterval)) tickInterval
        in map_option Some (xAxisLoop (Fin 0) maxTick (totalProduction l) []))"

record quartile_line =
  line_key :: string
  line_x :: jsnum
  line_value :: jsnum

text \<open>
  \<^verbatim>\<open>cumulativeData.find(...)?.cumulativeProduction\<close> is \<^verbatim>\<open>undefined\<close> when no element is
  found, and \<^verbatim>\<open>undefined\<close> is \<^verbatim>\<open>NaN\<close> as a number.
\<close>

definition quartileX :: "layout_result \<Rightarrow> jsnum \<Rightarrow> jsnum" where
  "quartileX l v =
     jadd (jmul (jdiv (case find (\<lambda>item. jge (cost item) v) (cumulativeData l) of
                         None \<Rightarrow> NaN
                       | Some item \<Rightarrow> cumulativeProduction item)
                  (totalProduction l)) chartWidth) MARGIN_left"

definition quartileLines :: "bool \<Rightarrow> layout_result \<Rightarrow> quartile_line list option" where
  "quartileLines showQuartiles l =
     (if \<not> showQuartiles then None
      else Some (map (\<lambda>(k, v). \<lparr>line_key = k, line_x = quartileX l v, line_value = v\<rparr>)
             [(''q1'', q1 (quartiles l)), (''median'', median (quartiles l)),
              (''q3'', q3 (quartiles l))]))"

text \<open>
  The effect that follows each change of \<^verbatim>\<open>data\<close> stores the weighted average cost, and
  the line is drawn under \<^verbatim>\<open>showWeightedAverage && weightedAverageCost > 0\<close>.
\<close>

definition weightedAverageCost :: "data_item list \<Rightarrow> jsnum" where
  "weightedAverageCost data =
     (let total = foldl (\<lambda>sum item. jadd sum (production item)) (Fin 0) data;
          weightedSum = foldl (\<lambda>sum item. jadd sum (jmul (cost item) (production item))) (Fin 0) data
      in jdiv weightedSum total)"

definition weightedAverageLine :: "bool \<Rightarrow> jsnum \<Rightarrow> jsnum \<Rightarrow> jsnum option" where
  "weightedAverageLine showWeightedAverage wac mx =
     (if showWeightedAverage \<and> jgt wac (Fin 0)
      then Some (jsub (jsub SVG_HEIGHT MARGIN_bottom) (jmul (jdiv wac mx) chartHeight))
      else None)"

section \<open>Notions used in the statements\<close>

text \<open>
  The sum of a list of numbers; a row whose production and cost are above zero after the
  field mapping; a number that is not negative; a number that is finite.
\<close>

primrec jsum :: "jsnum list \<Rightarrow> jsnum" where
  "jsum [] = Fin 0"
| "jsum (a # as) = jadd a (jsum as)"

definition rowValid :: "string list option \<Rightarrow> bool" where
  "rowValid row = (case mapRow row 0 of Inl e \<Rightarrow> False | Inr item \<Rightarrow> keepItem item)"

definition nonneg :: "jsnum \<Rightarrow> bool" where
  "nonneg a = jle (Fin 0) a"

definition isFin :: "jsnum \<Rightarrow> bool" where
  "isFin a = (case a of Fin q \<Rightarrow> True | _ \<Rightarrow> False)"

text \<open>
  Inputs on which the statements are evaluated: the example of the specification with a
  tie of costs and a row without production, a text with a row of three fields and a
  final line break, a record without production, two rows with a quoted number, and a
  text with a production of \<^verbatim>\<open>Infinity\<close>.
\<close>

definition example_csv :: string where
  "example_csv =
     ''name,production,cost,flag\<newline>A,100,10,0\<newline>B,200,20,1\<newline>C,50,5,0\<newline>D,70,10,0\<newline>E,0,7,0''"

definition item_A :: data_item where
  "item_A = \<lparr>name = ''A'', production = Fin 100, cost = Fin 10, highlight = False, id_item = 0\<rparr>"

definition item_B :: data_item where
  "item_B = \<lparr>name = ''B'', production = Fin 200, cost = Fin 20, highlight = True, id_item = 1\<rparr>"

definition item_C :: data_item where
  "item_C = \<lparr>name = ''C'', production = Fin 50, cost = Fin 5, highlight = False, id_item = 2\<rparr>"

definition item_D :: data_item where
  "item_D = \<lparr>name = ''D'', production = Fin 70, cost = Fin 10, highlight = False, id_item = 3\<rparr>"


definition item_Z :: data_item where
  "item_Z = \<lparr>name = ''Z'', production = Fin 0, cost = Fin 7, highlight = False, id_item = 0\<rparr>"

definition quoted_cost_csv :: string where
  "quoted_cost_csv = ''name,production,cost,flag\<newline>A,100,\"10\",0''"

definition quoted_production_csv :: string where
  "quoted_production_csv = ''name,production,cost,flag\<newline>A,\"100\",10,0''"

definition infinite_production_csv :: string where
  "infinite_production_csv = ''name,production,cost,flag\<newline>I,Infinity,5,0\<newline>J,100,10,0''"

definition item_I :: data_item where
  "item_I = \<lparr>name = ''I'', production = PInf, cost = Fin 5, highlight = False, id_item = 0\<rparr>"

definition item_J :: data_item where
  "item_J = \<lparr>name = ''J'', production = Fin 100, cost = Fin 10, highlight = False, id_item = 1\<rparr>"

section \<open>Numbers\<close>

lemma jgt_jsub: "jgt (jsub a b) (Fin 0) = jlt b a"
  by (cases a; cases b; simp add: jgt_def jsub_def)

lemma jle_refl: "a \<noteq> NaN \<Longrightarrow> jle a a"
  by (cases a; simp add: jle_def)

lemma jle_trans: "jle a b \<Longrightarrow> jle b c \<Longrightarrow> jle a c"
  by (cases a; cases b; cases c; simp add: jle_def)

lemma jlt_imp_jle: "jlt a b \<Longrightarrow> jle a b"
  by (cases a; cases b; simp add: jle_def)

lemma not_jlt_imp_jle: "a \<noteq> NaN \<Longrightarrow> b \<noteq> NaN \<Longrightarrow> \<not> jlt b a \<Longrightarrow> jle a b"
  by (simp add: jle_def)

lemma jge_refl: "v \<noteq> NaN \<Longrightarrow> jge v v"
  by (simp add: jge_def jle_refl)

lemma jadd_commute: "jadd a b = jadd b a"
  by (cases a; cases b; simp)

lemma jadd_assoc: "jadd (jadd a b) c = jadd a (jadd b c)"
  by (cases a; cases b; cases c; simp)

lemma jadd_zero_left: "jadd (Fin 0) a = a"
  by (cases a; simp)

lemma jadd_zero_right: "jadd a (Fin 0) = a"
  by (cases a; simp)

lemma jgt_zero_cases: "jgt a (Fin 0) \<longleftrightarrow> a = PInf \<or> (\<exists>q. a = Fin q \<and> 0 < q)"
  by (cases a) (simp_all add: jgt_def)

lemma nonneg_cases: "nonneg a \<longleftrightarrow> a = PInf \<or> (\<exists>q. a = Fin q \<and> 0 \<le> q)"
  by (cases a) (auto simp: nonneg_def jle_def)

lemma jgt_zero_nonneg: "jgt a (Fin 0) \<Longrightarrow> nonneg a"
  by (auto simp: jgt_zero_cases nonneg_cases)

lemma nonneg_zero: "nonneg (Fin 0)"
  by (simp add: nonneg_cases)

lemma nonneg_jadd: "nonneg a \<Longrightarrow> nonneg b \<Longrightarrow> nonneg (jadd a b)"
  by (auto simp: nonneg_cases)

lemma jgt_zero_jadd: "jgt a (Fin 0) \<Longrightarrow> nonneg b \<Longrightarrow> jgt (jadd a b) (Fin 0)"
  by (auto simp: jgt_zero_cases nonneg_cases)

lemma jle_jadd_nonneg: "nonneg a \<Longrightarrow> nonneg b \<Longrightarrow> jle a (jadd a b)"
  by (auto simp: nonneg_cases jle_def)

lemma isFin_jadd_nonneg: "nonneg a \<Longrightarrow> nonneg b \<Longrightarrow> isFin (jadd a b) \<Longrightarrow> isFin a \<and> isFin b"
  by (auto simp: nonneg_cases isFin_def)

lemma jadd_zero_nonneg:
  "nonneg a \<Longrightarrow> nonneg b \<Longrightarrow> jadd a b = Fin 0 \<Longrightarrow> a = Fin 0 \<and> b = Fin 0"
  by (auto simp: nonneg_cases)

lemma jmul_zero: "jmul c (Fin 0) = Fin 0 \<or> jmul c (Fin 0) = NaN"
  by (cases c) simp_all

lemma jgt_zero_truthy: "jgt v (Fin 0) \<Longrightarrow> truthy v"
  by (auto simp: jgt_zero_cases truthy_def)

lemma jgt_zero_Math_max:
  "nonneg m \<Longrightarrow> jgt c (Fin 0) \<Longrightarrow> jgt (Math_max m c) (Fin 0)"
  by (auto simp: jgt_zero_cases nonneg_cases Math_max_def)

lemma jgt_zero_foldl_max:
  "jgt m (Fin 0) \<or> (nonneg m \<and> cs \<noteq> []) \<Longrightarrow> \<forall>c\<in>set cs. jgt c (Fin 0) \<Longrightarrow>
     jgt (foldl Math_max m cs) (Fin 0)"
proof (induction cs arbitrary: m)
  case Nil
  then show ?case by simp
next
  case (Cons c cs)
  then have "nonneg m" by (auto dest: jgt_zero_nonneg)
  with Cons.prems have "jgt (Math_max m c) (Fin 0)"
    by (simp add: jgt_zero_Math_max)
  with Cons show ?case by simp
qed

lemma floor_quarter: "nat \<lfloor>(of_nat n :: rat) * (1 / 4)\<rfloor> = n div 4"
proof -
  have "(of_nat n :: rat) * (1 / 4) = of_nat n / of_nat 4" by simp
  then show ?thesis by (simp only: floor_divide_of_nat_eq nat_int)
qed

lemma floor_half: "nat \<lfloor>(of_nat n :: rat) * (1 / 2)\<rfloor> = n div 2"
proof -
  have "(of_nat n :: rat) * (1 / 2) = of_nat n / of_nat 2" by simp
  then show ?thesis by (simp only: floor_divide_of_nat_eq nat_int)
qed

lemma floor_three_quarters: "nat \<lfloor>(of_nat n :: rat) * (3 / 4)\<rfloor> = (3 * n) div 4"
proof -
  have "(of_nat n :: rat) * (3 / 4) = of_nat (3 * n) / of_nat 4" by simp
  then show ?thesis by (simp only: floor_divide_of_nat_eq nat_int)
qed

lemma floor_rat_numeral: "\<lfloor>(numeral a :: rat) / numeral b\<rfloor> = numeral a div numeral b"
proof -
  have "\<lfloor>(numeral a :: rat) / numeral b\<rfloor> = \<lfloor>(of_int (numeral a) :: rat) / of_int (numeral b)\<rfloor>"
    by simp
  also have "\<dots> = numeral a div numeral b"
    by (simp only: floor_divide_of_int_eq)
  finally show ?thesis .
qed

section \<open>Sums\<close>

lemma jsum_append: "jsum (as @ bs) = jadd (jsum as) (jsum bs)"
  by (induction as) (simp_all add: jadd_zero_left jadd_assoc)

lemma jsum_Fin: "jsum (map Fin qs) = Fin (sum_list qs)"
  by (induction qs) simp_all

lemma foldl_jadd: "foldl (\<lambda>s r. jadd s (f r)) a rs = jadd a (jsum (map f rs))"
  by (induction rs arbitrary: a) (simp_all add: jadd_zero_right jadd_assoc)

lemma nonneg_jsum: "\<forall>p\<in>set ps. nonneg p \<Longrightarrow> nonneg (jsum ps)"
  by (induction ps) (simp_all add: nonneg_jadd nonneg_zero)

lemma jgt_zero_jsum:
  assumes "ps \<noteq> []" and pos: "\<forall>p\<in>set ps. jgt p (Fin 0)"
  shows "jgt (jsum ps) (Fin 0)"
proof (cases ps)
  case Nil
  with assms show ?thesis by simp
next
  case (Cons p rest)
  with pos have "jgt p (Fin 0)" by simp
  moreover from pos Cons have "nonneg (jsum rest)"
    by (intro nonneg_jsum) (simp add: jgt_zero_nonneg)
  ultimately show ?thesis using Cons by (simp add: jgt_zero_jadd)
qed

lemma jsum_take_mono:
  assumes "\<forall>p\<in>set ps. nonneg p" and "i \<le> j"
  shows "jle (jsum (take i ps)) (jsum (take j ps))"
proof -
  from \<open>i \<le> j\<close> have "take j ps = take i ps @ take (j - i) (drop i ps)"
    by (metis le_add_diff_inverse take_add)
  moreover from assms(1) have "nonneg (jsum (take i ps))"
    by (intro nonneg_jsum) (auto dest: in_set_takeD)
  moreover from assms(1) have "nonneg (jsum (take (j - i) (drop i ps)))"
    by (intro nonneg_jsum) (auto dest!: in_set_takeD in_set_dropD)
  ultimately show ?thesis
    by (simp add: jsum_append jle_jadd_nonneg)
qed

lemma isFin_jsum: "\<forall>p\<in>set ps. isFin p \<Longrightarrow> isFin (jsum ps)"
  by (induction ps) (auto simp: isFin_def split: jsnum.splits)

lemma isFin_jsum_nonneg:
  "\<forall>p\<in>set ps. nonneg p \<Longrightarrow> isFin (jsum ps) \<Longrightarrow> \<forall>p\<in>set ps. isFin p"
proof (induction ps)
  case Nil
  then show ?case by simp
next
  case (Cons p ps)
  then have "nonneg p" "nonneg (jsum ps)" by (simp_all add: nonneg_jsum)
  with Cons.prems have "isFin p \<and> isFin (jsum ps)"
    by (intro isFin_jadd_nonneg) simp_all
  with Cons show ?case by simp
qed

lemma nonneg_jsum_zero:
  "\<forall>p\<in>set ps. nonneg p \<Longrightarrow> jsum ps = Fin 0 \<Longrightarrow> \<forall>p\<in>set ps. p = Fin 0"
proof (induction ps)
  case Nil
  then show ?case by simp
next
  case (Cons p ps)
  then have "nonneg p" "nonneg (jsum ps)" by (simp_all add: nonneg_jsum)
  with Cons.prems have "p = Fin 0 \<and> jsum ps = Fin 0"
    by (intro jadd_zero_nonneg) simp_all
  with Cons show ?case by simp
qed

lemma jsum_zero_or_NaN:
  "\<forall>v\<in>set vs. v = Fin 0 \<or> v = NaN \<Longrightarrow> jsum vs = Fin 0 \<or> jsum vs = NaN"
  by (induction vs) auto

section \<open>The sort\<close>

lemma mset_insertBy: "mset (insertBy cmp x ys) = add_mset x (mset ys)"
  by (induction ys) auto

lemma mset_sortBy: "mset (sortBy cmp xs) = mset xs"
  by (induction xs) (auto simp: sortBy_def mset_insertBy)

lemma set_sortBy: "set (sortBy cmp xs) = set xs"
  using mset_sortBy [of cmp xs] by (metis set_mset_mset)

lemma length_sortBy: "length (sortBy cmp xs) = length xs"
  using mset_sortBy [of cmp xs] by (metis size_mset)

lemma set_insertBy: "set (insertBy cmp x ys) = insert x (set ys)"
  using mset_insertBy [of cmp x ys] by (metis set_mset_mset set_mset_add_mset_insert)

lemma sorted_insertBy:
  assumes "k x \<noteq> NaN" and "\<forall>y\<in>set ys. k y \<noteq> NaN"
    and "sorted_wrt (\<lambda>a b. jle (k a) (k b)) ys"
  shows "sorted_wrt (\<lambda>a b. jle (k a) (k b)) (insertBy (\<lambda>a b. jsub (k a) (k b)) x ys)"
  using assms
proof (induction ys)
  case Nil
  then show ?case by simp
next
  case (Cons y ys)
  show ?case
  proof (cases "jlt (k y) (k x)")
    case True
    then have "jle (k y) (k x)" by (rule jlt_imp_jle)
    with Cons True show ?thesis
      by (auto simp: jgt_jsub set_insertBy)
  next
    case False
    with Cons.prems have xy: "jle (k x) (k y)"
      by (simp add: not_jlt_imp_jle)
    with Cons.prems have "\<forall>z\<in>set ys. jle (k x) (k z)"
      by (auto intro: jle_trans)
    with Cons.prems xy False show ?thesis
      by (simp add: jgt_jsub)
  qed
qed

lemma sorted_sortBy:
  assumes "\<forall>y\<in>set xs. k y \<noteq> NaN"
  shows "sorted_wrt (\<lambda>a b. jle (k a) (k b)) (sortBy (\<lambda>a b. jsub (k a) (k b)) xs)"
  using assms
proof (induction xs)
  case Nil
  then show ?case by (simp add: sortBy_def)
next
  case (Cons x xs)
  then have "sorted_wrt (\<lambda>a b. jle (k a) (k b)) (sortBy (\<lambda>a b. jsub (k a) (k b)) xs)"
    by simp
  moreover have "\<forall>y\<in>set (sortBy (\<lambda>a b. jsub (k a) (k b)) xs). k y \<noteq> NaN"
    using Cons.prems by (simp add: set_sortBy)
  moreover have "k x \<noteq> NaN" using Cons.prems by simp
  ultimately have "sorted_wrt (\<lambda>a b. jle (k a) (k b))
      (insertBy (\<lambda>a b. jsub (k a) (k b)) x (sortBy (\<lambda>a b. jsub (k a) (k b)) xs))"
    by (intro sorted_insertBy) auto
  then show ?case by (simp add: sortBy_def)
qed

lemma filter_insertBy:
  "filter (\<lambda>r. k r = c) (insertBy (\<lambda>a b. jsub (k a) (k b)) x ys) =
     (if k x = c then x # filter (\<lambda>r. k r = c) ys else filter (\<lambda>r. k r = c) ys)"
proof (induction ys)
  case Nil
  then show ?case by simp
next
  case (Cons y ys)
  have "\<not> jlt c c" by (cases c) simp_all
  with Cons show ?case by (auto simp: jgt_jsub)
qed

lemma filter_sortBy:
  "filter (\<lambda>r. k r = c) (sortBy (\<lambda>a b. jsub (k a) (k b)) xs) = filter (\<lambda>r. k r = c) xs"
  by (induction xs) (simp_all add: sortBy_def filter_insertBy)

lemma sorted_wrt_jle_nth:
  assumes "sorted_wrt jle cs" and "i \<le> j" and "j < length cs" and "cs ! i \<noteq> NaN"
  shows "jle (cs ! i) (cs ! j)"
proof (cases "i = j")
  case True
  with assms show ?thesis by (simp add: jle_refl)
next
  case False
  with assms have "i < j" by simp
  with assms show ?thesis by (simp add: sorted_wrt_nth_less)
qed

lemma byCost_eq: "byCost = (\<lambda>a b. jsub (cost a) (cost b))"
  by (intro ext) (simp add: byCost_def)

lemma byValue_eq: "byValue = (\<lambda>a b. jsub ((\<lambda>v. v) a) ((\<lambda>v. v) b))"
  by (intro ext) (simp add: byValue_def)

section \<open>The parser raises no exception\<close>

lemma mapRow_keepRow:
  assumes "keepRow row"
  shows "\<exists>item. mapRow row i = Inr item \<and> id_item item = i \<and> keepItem item = rowValid row"
proof -
  from assms obtain fs where row: "row = Some fs" and len: "4 \<le> length fs"
    by (auto simp: keepRow_def split: option.splits)
  from len have "0 < length fs" "1 < length fs" "2 < length fs"
    by linarith+
  then have "elemAt fs 0 = Some (fs ! 0)" "elemAt fs 1 = Some (fs ! 1)"
    "elemAt fs 2 = Some (fs ! 2)"
    unfolding elemAt_def by simp_all
  then show ?thesis
    by (simp add: mapRow_def row rowValid_def keepItem_def)
qed

lemma mapIndexed_mapRow:
  assumes "\<forall>row\<in>set rs. keepRow row"
  shows "\<exists>items. mapIndexed mapRow rs i = Inr items \<and>
           map keepItem items = map rowValid rs \<and>
           map id_item items = [i..<i + length rs]"
  using assms
proof (induction rs arbitrary: i)
  case Nil
  then show ?case by simp
next
  case (Cons row rs)
  then have "keepRow row" by simp
  from mapRow_keepRow [OF this, of i] obtain item where
    item: "mapRow row i = Inr item" "id_item item = i" "keepItem item = rowValid row"
    by blast
  from Cons obtain items where
    items: "mapIndexed mapRow rs (Suc i) = Inr items" "map keepItem items = map rowValid rs"
      "map id_item items = [Suc i..<Suc i + length rs]"
    by fastforce
  have "[i..<i + length (row # rs)] = i # [Suc i..<Suc i + length rs]"
    by (simp add: upt_rec)
  with item items show ?case by simp
qed


lemma parsedData_Inr:
  "\<exists>items. mapIndexed mapRow (filter keepRow (drop 1 (rows csv))) 0 = Inr items \<and>
     parsedData csv = Inr (filter keepItem items) \<and>
     map keepItem items = map rowValid (filter keepRow (drop 1 (rows csv))) \<and>
     map id_item items = [0..<length items]"
proof -
  have "\<forall>row\<in>set (filter keepRow (drop 1 (rows csv))). keepRow row" by simp
  from mapIndexed_mapRow [OF this, of 0] obtain items where
    items: "mapIndexed mapRow (filter keepRow (drop 1 (rows csv))) 0 = Inr items"
      "map keepItem items = map rowValid (filter keepRow (drop 1 (rows csv)))"
      "map id_item items = [0..<0 + length (filter keepRow (drop 1 (rows csv)))]"
    by blast
  from items(2) have "length items = length (filter keepRow (drop 1 (rows csv)))"
    by (metis length_map)
  with items show ?thesis
    by (simp add: parsedData_def)
qed


lemma parsedData_keepItem:
  "parsedData csv = Inr pd \<Longrightarrow> \<forall>r\<in>set pd. keepItem r"
  using parsedData_Inr [of csv] by auto

lemma keepItem_cost_not_NaN: "keepItem r \<Longrightarrow> cost r \<noteq> NaN"
  by (cases "cost r") (simp_all add: keepItem_def jgt_def)

lemma parsedData_ids:
  assumes "parsedData csv = Inr pd"
  shows "sorted_wrt (\<lambda>a b. id_item a < id_item b) pd"
proof -
  from parsedData_Inr [of csv] assms obtain items where
    items: "pd = filter keepItem items" "map id_item items = [0..<length items]"
    by auto
  have "sorted_wrt (<) (map id_item items)"
    by (simp add: items(2))
  then have "sorted_wrt (\<lambda>a b. id_item a < id_item b) items"
    by (simp add: sorted_wrt_map)
  then show ?thesis
    by (simp add: items(1) sorted_wrt_filter)
qed

lemma handleFileUpload_Inr:
  "\<exists>pd. parsedData csv = Inr pd \<and> handleFileUpload csv = Inr (sortBy byCost pd)"
  using parsedData_Inr [of csv] by (auto simp: handleFileUpload_def)

lemma handleFileUpload_keepItem:
  "\<exists>data. handleFileUpload csv = Inr data \<and> (\<forall>r\<in>set data. keepItem r)"
  using handleFileUpload_Inr [of csv] by (auto simp: set_sortBy dest: parsedData_keepItem)


section \<open>The layout\<close>

lemma extend_fields:
  "cost (data_item.extend r e) = cost r"
  "production (data_item.extend r e) = production r"
  "name (data_item.extend r e) = name r"
  "highlight (data_item.extend r e) = highlight r"
  "id_item (data_item.extend r e) = id_item r"
  "data_item.truncate (data_item.extend r e) = r"
  "cumulativeProduction (data_item.extend r \<lparr>cumulativeProduction = v\<rparr>) = v"
  by (simp_all add: data_item.extend_def data_item.truncate_def)

lemma layoutLoop_length: "length (fst (layoutLoop data c m)) = length data"
  by (induction data arbitrary: c m) (simp_all add: Let_def case_prod_beta)

lemma layoutLoop_total:
  "fst (snd (layoutLoop data c m)) = jadd c (jsum (map production data))"
  by (induction data arbitrary: c m)
    (simp_all add: Let_def case_prod_beta jadd_zero_right jadd_assoc)

lemma layoutLoop_maxCost:
  "snd (snd (layoutLoop data c m)) = foldl Math_max m (map cost data)"
  by (induction data arbitrary: c m) (simp_all add: Let_def case_prod_beta)

lemma layoutLoop_nth:
  "i < length data \<Longrightarrow>
     fst (layoutLoop data c m) ! i =
       data_item.extend (data ! i)
         \<lparr>cumulativeProduction = jadd c (jsum (map production (take i data)))\<rparr>"
proof (induction data arbitrary: c m i)
  case Nil
  then show ?case by simp
next
  case (Cons item rest)
  show ?case
  proof (cases i)
    case 0
    then show ?thesis by (simp add: Let_def case_prod_beta jadd_zero_right)
  next
    case (Suc j)
    with Cons.prems have "j < length rest" by simp
    from Cons.IH [OF this] Suc show ?thesis
      by (simp add: Let_def case_prod_beta jadd_assoc)
  qed
qed

lemma layout_cumulativeData_length: "length (cumulativeData (layout data)) = length data"
  using layoutLoop_length [of data "Fin 0" "Fin 0"]
  by (simp add: layout_def Let_def case_prod_beta)

lemma layout_totalProduction: "totalProduction (layout data) = jsum (map production data)"
  using layoutLoop_total [of data "Fin 0" "Fin 0"]
  by (simp add: layout_def Let_def case_prod_beta jadd_zero_left)

lemma layout_maxCost: "maxCost (layout data) = foldl Math_max (Fin 0) (map cost data)"
  using layoutLoop_maxCost [of data "Fin 0" "Fin 0"]
  by (simp add: layout_def Let_def case_prod_beta)

lemma layout_nth:
  "i < length data \<Longrightarrow>
     cumulativeData (layout data) ! i =
       data_item.extend (data ! i)
         \<lparr>cumulativeProduction = jsum (map production (take i data))\<rparr>"
  using layoutLoop_nth [of i data "Fin 0" "Fin 0"]
  by (simp add: layout_def Let_def case_prod_beta jadd_zero_left)

lemma layout_costs: "map cost (cumulativeData (layout data)) = map cost data"
  by (rule nth_equalityI)
    (simp_all add: layout_cumulativeData_length layout_nth extend_fields)

lemma layout_Nil:
  "layout [] =
     \<lparr>cumulativeData = [], maxCost = Fin 0, totalProduction = Fin 0,
      quartiles = \<lparr>q1 = Fin 0, median = Fin 0, q3 = Fin 0\<rparr>\<rparr>"
  by (simp add: layout_def sortBy_def quantile_def elemAt_def)

lemma layout_divisors:
  assumes "data \<noteq> []" and "\<forall>r\<in>set data. keepItem r"
  shows "jgt (totalProduction (layout data)) (Fin 0) \<and> jgt (maxCost (layout data)) (Fin 0)"
proof -
  from assms have "jgt (jsum (map production data)) (Fin 0)"
    by (intro jgt_zero_jsum) (simp_all add: keepItem_def)
  moreover from assms have "jgt (foldl Math_max (Fin 0) (map cost data)) (Fin 0)"
    by (intro jgt_zero_foldl_max) (simp_all add: keepItem_def nonneg_cases)
  ultimately show ?thesis
    by (simp add: layout_totalProduction layout_maxCost)
qed

lemma layout_cumulative_sorted:
  assumes "\<forall>r\<in>set data. jgt (production r) (Fin 0)"
  shows "sorted_wrt jle (map cumulativeProduction (cumulativeData (layout data)))"
proof -
  let ?ps = "map production data"
  from assms have nn: "\<forall>p\<in>set ?ps. nonneg p"
    by (auto dest: jgt_zero_nonneg)
  have "jle (map cumulativeProduction (cumulativeData (layout data)) ! i)
          (map cumulativeProduction (cumulativeData (layout data)) ! j)"
    if "i < j" and "j < length data" for i j
  proof -
    from that have "i < length data" by simp
    with that show ?thesis
      using jsum_take_mono [OF nn, of i j]
      by (simp add: layout_cumulativeData_length layout_nth extend_fields take_map)
  qed
  then show ?thesis
    by (simp add: sorted_wrt_iff_nth_less layout_cumulativeData_length)
qed

lemma layout_last:
  assumes "data \<noteq> []"
  shows "jadd (cumulativeProduction (last (cumulativeData (layout data))))
           (production (last (cumulativeData (layout data)))) = totalProduction (layout data)"
proof -
  let ?n = "length data - 1"
  from assms have n: "?n < length data" by (cases data) simp_all
  then have "take (Suc ?n) data = take ?n data @ [data ! ?n]"
    by (rule take_Suc_conv_app_nth)
  moreover from n have "take (Suc ?n) data = data" by simp
  ultimately have "data = take ?n data @ [data ! ?n]" by simp
  then have "jsum (map production data) =
      jsum (map production (take ?n data) @ [production (data ! ?n)])"
    by (metis list.simps(8,9) map_append)
  then have total: "jsum (map production data) =
      jadd (jsum (map production (take ?n data))) (production (data ! ?n))"
    by (simp add: jsum_append jadd_zero_right)
  from assms have "cumulativeData (layout data) \<noteq> []"
    using layout_cumulativeData_length [of data] by auto
  then have "last (cumulativeData (layout data)) = cumulativeData (layout data) ! ?n"
    by (simp add: last_conv_nth layout_cumulativeData_length)
  with n total show ?thesis
    by (simp add: layout_nth extend_fields layout_totalProduction)
qed

section \<open>Quartiles and the weighted average\<close>

lemma layout_quartiles:
  "quartiles (layout data) =
     \<lparr>q1 = quantile (sortBy byValue (map cost data)) (1 / 4),
      median = quantile (sortBy byValue (map cost data)) (1 / 2),
      q3 = quantile (sortBy byValue (map cost data)) (3 / 4)\<rparr>"
proof -
  have "quartiles (layout data) =
     \<lparr>q1 = quantile (sortBy byValue (map cost (cumulativeData (layout data)))) (1 / 4),
      median = quantile (sortBy byValue (map cost (cumulativeData (layout data)))) (1 / 2),
      q3 = quantile (sortBy byValue (map cost (cumulativeData (layout data)))) (3 / 4)\<rparr>"
    by (simp add: layout_def Let_def case_prod_beta)
  then show ?thesis by (simp add: layout_costs)
qed

lemma quantile_nth:
  assumes "i < length cs" and "jgt (cs ! i) (Fin 0)"
  shows "length cs div 4 = i \<Longrightarrow> quantile cs (1 / 4) = cs ! i"
    and "length cs div 2 = i \<Longrightarrow> quantile cs (1 / 2) = cs ! i"
    and "3 * length cs div 4 = i \<Longrightarrow> quantile cs (3 / 4) = cs ! i"
  using assms unfolding quantile_def floor_quarter floor_half floor_three_quarters
  by (simp_all add: elemAt_def orZero_def jgt_zero_truthy)

lemma sorted_costs:
  assumes "\<forall>r\<in>set data. jgt (cost r) (Fin 0)"
  shows "sorted_wrt jle (sortBy byValue (map cost data))"
proof -
  from assms have "\<forall>v\<in>set (map cost data). (\<lambda>v. v) v \<noteq> NaN"
    by (auto simp: jgt_zero_cases)
  then have "sorted_wrt (\<lambda>a b. jle ((\<lambda>v. v) a) ((\<lambda>v. v) b))
      (sortBy (\<lambda>a b. jsub ((\<lambda>v. v) a) ((\<lambda>v. v) b)) (map cost data))"
    by (rule sorted_sortBy)
  then show ?thesis by (simp add: byValue_eq)
qed

lemma quartiles_nth:
  assumes "data \<noteq> []" and "\<forall>r\<in>set data. jgt (cost r) (Fin 0)"
  shows "q1 (quartiles (layout data)) = sortBy byValue (map cost data) ! (length data div 4)"
    and "median (quartiles (layout data)) = sortBy byValue (map cost data) ! (length data div 2)"
    and "q3 (quartiles (layout data)) = sortBy byValue (map cost data) ! (3 * length data div 4)"
proof -
  let ?cs = "sortBy byValue (map cost data)"
  have len: "length ?cs = length data" by (simp add: length_sortBy)
  from assms(1) have n: "0 < length data" by simp
  have pos: "jgt (?cs ! i) (Fin 0)" if "i < length data" for i
  proof -
    from that len have "?cs ! i \<in> set ?cs" by simp
    then have "?cs ! i \<in> set (map cost data)" by (simp only: set_sortBy)
    with assms(2) show ?thesis by auto
  qed
  from n have i1: "length data div 4 < length data" by simp
  from n have i2: "length data div 2 < length data" by simp
  from n have i3: "3 * length data div 4 < length data" by arith
  show "q1 (quartiles (layout data)) = ?cs ! (length data div 4)"
    using quantile_nth(1) [of "length data div 4" ?cs] i1 pos [OF i1]
    by (simp add: layout_quartiles len)
  show "median (quartiles (layout data)) = ?cs ! (length data div 2)"
    using quantile_nth(2) [of "length data div 2" ?cs] i2 pos [OF i2]
    by (simp add: layout_quartiles len)
  show "q3 (quartiles (layout data)) = ?cs ! (3 * length data div 4)"
    using quantile_nth(3) [of "3 * length data div 4" ?cs] i3 pos [OF i3]
    by (simp add: layout_quartiles len)
qed

lemma quartiles_in_costs:
  assumes "data \<noteq> []" and "\<forall>r\<in>set data. jgt (cost r) (Fin 0)"
  shows "q1 (quartiles (layout data)) \<in> set (map cost data)"
    and "median (quartiles (layout data)) \<in> set (map cost data)"
    and "q3 (quartiles (layout data)) \<in> set (map cost data)"
proof -
  let ?cs = "sortBy byValue (map cost data)"
  have len: "length ?cs = length data" by (simp add: length_sortBy)
  have mem: "?cs ! i \<in> set (map cost data)" if "i < length data" for i
  proof -
    from that len have "?cs ! i \<in> set ?cs" by simp
    then show ?thesis by (simp only: set_sortBy)
  qed
  from assms(1) have n: "0 < length data" by simp
  from n have "length data div 4 < length data" by simp
  then show "q1 (quartiles (layout data)) \<in> set (map cost data)"
    using quartiles_nth(1) [OF assms] mem by simp
  from n have "length data div 2 < length data" by simp
  then show "median (quartiles (layout data)) \<in> set (map cost data)"
    using quartiles_nth(2) [OF assms] mem by simp
  from n have "3 * length data div 4 < length data" by arith
  then show "q3 (quartiles (layout data)) \<in> set (map cost data)"
    using quartiles_nth(3) [OF assms] mem by simp
qed

lemma find_quartile:
  assumes "v \<in> set (map cost data)" and "v \<noteq> NaN"
  shows "\<exists>i<length data.
     find (\<lambda>item. jge (cost item) v) (cumulativeData (layout data)) =
       Some (cumulativeData (layout data) ! i) \<and>
     jge (cost (data ! i)) v \<and> (\<forall>j<i. \<not> jge (cost (data ! j)) v)"
proof -
  let ?cd = "cumulativeData (layout data)"
  from assms(1) have "v \<in> set (map cost ?cd)" by (simp only: layout_costs)
  then obtain item0 where "item0 \<in> set ?cd" "cost item0 = v" by auto
  with assms(2) have "\<exists>item\<in>set ?cd. jge (cost item) v"
    using jge_refl [of v] by blast
  then obtain item where "find (\<lambda>item. jge (cost item) v) ?cd = Some item"
    by (cases "find (\<lambda>item. jge (cost item) v) ?cd") (auto simp: find_None_iff)
  then obtain i where i: "i < length ?cd" "jge (cost (?cd ! i)) v" "item = ?cd ! i"
      "\<forall>j<i. \<not> jge (cost (?cd ! j)) v"
    by (auto simp: find_Some_iff)
  from i(1) have il: "i < length data" by (simp add: layout_cumulativeData_length)
  have "cost (?cd ! j) = cost (data ! j)" if "j < length data" for j
    using that by (simp add: layout_nth extend_fields)
  with i il \<open>find (\<lambda>item. jge (cost item) v) ?cd = Some item\<close> show ?thesis
    by (intro exI [of _ i]) auto
qed

lemma quartileX_isFin:
  assumes "data \<noteq> []" and "\<forall>r\<in>set data. jgt (production r) (Fin 0) \<and> isFin (production r)"
    and "v \<in> set (map cost data)" and "v \<noteq> NaN"
  shows "isFin (quartileX (layout data) v)"
proof -
  from find_quartile [OF assms(3,4)] obtain i where
    i: "i < length data"
      "find (\<lambda>item. jge (cost item) v) (cumulativeData (layout data)) =
         Some (cumulativeData (layout data) ! i)"
    by blast
  from assms(2) have "isFin (jsum (map production (take i data)))"
    by (intro isFin_jsum) (auto dest: in_set_takeD)
  then obtain a where a: "jsum (map production (take i data)) = Fin a"
    by (auto simp: isFin_def split: jsnum.splits)
  from assms(2) have "isFin (jsum (map production data))"
    by (intro isFin_jsum) auto
  moreover from assms(1,2) have "jgt (jsum (map production data)) (Fin 0)"
    by (intro jgt_zero_jsum) auto
  ultimately obtain t where t: "jsum (map production data) = Fin t" "0 < t"
    by (auto simp: isFin_def jgt_zero_cases)
  from i a t show ?thesis
    by (simp add: quartileX_def layout_nth extend_fields layout_totalProduction
        chartWidth_def SVG_WIDTH_def MARGIN_left_def MARGIN_right_def jsub_def isFin_def)
qed

lemma weightedAverageCost_jsum:
  "weightedAverageCost data =
     jdiv (jsum (map (\<lambda>r. jmul (cost r) (production r)) data)) (jsum (map production data))"
  by (simp add: weightedAverageCost_def Let_def foldl_jadd jadd_zero_left)

lemma weightedAverageCost_NaN:
  assumes "\<forall>r\<in>set data. nonneg (production r)" and "jsum (map production data) = Fin 0"
  shows "weightedAverageCost data = NaN"
proof -
  from assms have "\<forall>p\<in>set (map production data). p = Fin 0"
    by (intro nonneg_jsum_zero) simp_all
  then have "\<forall>v\<in>set (map (\<lambda>r. jmul (cost r) (production r)) data). v = Fin 0 \<or> v = NaN"
    using jmul_zero by auto
  then have "jsum (map (\<lambda>r. jmul (cost r) (production r)) data) = Fin 0 \<or>
      jsum (map (\<lambda>r. jmul (cost r) (production r)) data) = NaN"
    by (rule jsum_zero_or_NaN)
  with assms(2) show ?thesis
    by (auto simp: weightedAverageCost_jsum)
qed

section \<open>The examples, evaluated\<close>

lemmas split_defs =
  matchAt_def lookahead_def isSpace_def isLineTerminator_def rowMatch_def rows_def

lemmas map_defs =
  keepRow_def mapRow_def elemAt_def trim_def isSpace_def parseFloat_def strUnsignedDecimal_def
  isDigit_def digitsValue_def exponentPart_def orZero_def truthy_def keepItem_def jgt_def
  Let_def

lemmas geometry_defs =
  SVG_WIDTH_def SVG_HEIGHT_def MARGIN_top_def MARGIN_right_def MARGIN_left_def
  MARGIN_bottom_def chartWidth_def chartHeight_def jsub_def

lemma example_rows:
  "rows example_csv =
     [Some [''name'', ''production'', ''cost'', ''flag''],
      Some [''A'', ''100'', ''10'', ''0''], Some [''B'', ''200'', ''20'', ''1''],
      Some [''C'', ''50'', ''5'', ''0''], Some [''D'', ''70'', ''10'', ''0''],
      Some [''E'', ''0'', ''7'', ''0'']]"
  by (simp add: example_csv_def split_defs)

lemma example_parsedData:
  "parsedData example_csv = Inr [item_A, item_B, item_C, item_D]"
  by (simp add: parsedData_def example_rows map_defs item_A_def item_B_def item_C_def
      item_D_def)

lemma example_handleFileUpload:
  "handleFileUpload example_csv = Inr [item_C, item_A, item_D, item_B]"
  by (simp add: handleFileUpload_def example_parsedData sortBy_def byCost_def jsub_def jgt_def
      item_A_def item_B_def item_C_def item_D_def)


lemma infinite_production_rows:
  "rows infinite_production_csv =
     [Some [''name'', ''production'', ''cost'', ''flag''],
      Some [''I'', ''Infinity'', ''5'', ''0''], Some [''J'', ''100'', ''10'', ''0'']]"
  by (simp add: infinite_production_csv_def split_defs)

lemma infinite_production_handleFileUpload:
  "handleFileUpload infinite_production_csv = Inr [item_I, item_J]"
  by (simp add: handleFileUpload_def parsedData_def infinite_production_rows map_defs
      sortBy_def byCost_def jsub_def item_I_def item_J_def)

section \<open>The claims\<close>

text \<open>
  C1. For every list of records with production above zero, in the order the layout
  receives them (ascending cost): the layout has one entry for each record, the entry
  is the record with a cumulative production equal to the sum of the productions of the
  records before it, which is 0 for the first one; the cumulative productions do not
  decrease along the list; the total production is the sum of all productions; and the
  cumulative production of the last entry plus its production is the total production.
\<close>

theorem C1_cumulative_layout:
  assumes "\<forall>r\<in>set data. jgt (production r) (Fin 0)"
  shows "length (cumulativeData (layout data)) = length data \<and>
    (\<forall>i<length data.
       data_item.truncate (cumulativeData (layout data) ! i) = data ! i \<and>
       cumulativeProduction (cumulativeData (layout data) ! i) =
         jsum (map production (take i data))) \<and>
    (data \<noteq> [] \<longrightarrow> cumulativeProduction (hd (cumulativeData (layout data))) = Fin 0) \<and>
    sorted_wrt jle (map cumulativeProduction (cumulativeData (layout data))) \<and>
    totalProduction (layout data) = jsum (map production data) \<and>
    (data \<noteq> [] \<longrightarrow>
       jadd (cumulativeProduction (last (cumulativeData (layout data))))
         (production (last (cumulativeData (layout data)))) = totalProduction (layout data))"
proof -
  have "cumulativeProduction (hd (cumulativeData (layout data))) = Fin 0" if "data \<noteq> []"
  proof -
    from that have "0 < length data" by simp
    moreover from that have "cumulativeData (layout data) \<noteq> []"
      using layout_cumulativeData_length [of data] by auto
    ultimately show ?thesis
      by (simp add: hd_conv_nth layout_nth extend_fields)
  qed
  with assms show ?thesis
    by (simp add: layout_cumulativeData_length layout_nth extend_fields
        layout_cumulative_sorted layout_totalProduction layout_last)
qed

theorem C1_cumulative_layout_witness:
  "list_all (\<lambda>r. jgt (production r) (Fin 0)) [item_C, item_A, item_B] \<and>
   map cumulativeProduction (cumulativeData (layout [item_C, item_A, item_B])) =
     [Fin 0, Fin 50, Fin 150] \<and>
   totalProduction (layout [item_C, item_A, item_B]) = Fin 350 \<and>
   sorted_wrt jle (map cumulativeProduction (cumulativeData (layout [item_C, item_A, item_B])))"
proof -
  have pos: "\<forall>r\<in>set [item_C, item_A, item_B]. jgt (production r) (Fin 0)"
    by (simp add: item_A_def item_B_def item_C_def jgt_def)
  have cum: "map cumulativeProduction (cumulativeData (layout [item_C, item_A, item_B])) =
      [Fin 0, Fin 50, Fin 150]"
    by (simp add: layout_def Let_def extend_fields item_A_def item_B_def item_C_def)
  from C1_cumulative_layout [OF pos] pos cum show ?thesis
    by (simp add: item_A_def item_B_def item_C_def)
qed



text \<open>
  C3. For every CSV text the upload handler raises no exception, and the record list it
  stores is sorted non-decreasing by cost. It holds the records that passed the filters,
  whose sequence ids increase in the order of the input rows, and the records of any one
  cost stand in the stored list in that same order, so their sequence ids increase.
\<close>

theorem C3_sorted_stable:
  "\<exists>pd data. parsedData csv = Inr pd \<and> handleFileUpload csv = Inr data \<and>
     sorted_wrt (\<lambda>a b. jle (cost a) (cost b)) data \<and>
     mset data = mset pd \<and>
     sorted_wrt (\<lambda>a b. id_item a < id_item b) pd \<and>
     (\<forall>c. filter (\<lambda>r. cost r = c) data = filter (\<lambda>r. cost r = c) pd) \<and>
     (\<forall>c. sorted_wrt (\<lambda>a b. id_item a < id_item b) (filter (\<lambda>r. cost r = c) data))"
proof -
  from handleFileUpload_Inr [of csv] obtain pd where
    pd: "parsedData csv = Inr pd" "handleFileUpload csv = Inr (sortBy byCost pd)"
    by blast
  from pd(1) have "\<forall>r\<in>set pd. cost r \<noteq> NaN"
    by (auto dest: parsedData_keepItem keepItem_cost_not_NaN)
  then have "sorted_wrt (\<lambda>a b. jle (cost a) (cost b)) (sortBy byCost pd)"
    unfolding byCost_eq by (rule sorted_sortBy)
  moreover have "mset (sortBy byCost pd) = mset pd"
    by (rule mset_sortBy)
  moreover have ids: "sorted_wrt (\<lambda>a b. id_item a < id_item b) pd"
    using pd(1) by (rule parsedData_ids)
  moreover have stable:
    "\<forall>c. filter (\<lambda>r. cost r = c) (sortBy byCost pd) = filter (\<lambda>r. cost r = c) pd"
    unfolding byCost_eq by (simp add: filter_sortBy)
  moreover have
    "\<forall>c. sorted_wrt (\<lambda>a b. id_item a < id_item b) (filter (\<lambda>r. cost r = c) (sortBy byCost pd))"
    using ids stable by (simp add: sorted_wrt_filter)
  ultimately show ?thesis using pd by blast
qed

theorem C3_sorted_stable_witness:
  "handleFileUpload example_csv = Inr [item_C, item_A, item_D, item_B] \<and>
   sorted_wrt (\<lambda>a b. jle (cost a) (cost b)) [item_C, item_A, item_D, item_B] \<and>
   filter (\<lambda>r. cost r = Fin 10) [item_C, item_A, item_D, item_B] =
     filter (\<lambda>r. cost r = Fin 10) [item_A, item_B, item_C, item_D]"
  using C3_sorted_stable [of example_csv]
  by (simp add: example_parsedData example_handleFileUpload)

text \<open>
  C4. With no records (the state before any file is loaded, where both tick checkboxes are
  ticked) there are no bars and the weighted average line is not drawn, but the cost axis
  gets one tick whose y-position is \<^verbatim>\<open>NaN\<close> and the production axis gets one tick whose
  x-position is \<^verbatim>\<open>NaN\<close>.
\<close>

theorem C4_empty_data_ticks_NaN:
  "getBars barColor highlightColor (layout []) = [] \<and>
   weightedAverageLine True (weightedAverageCost []) (maxCost (layout [])) = None \<and>
   yAxisTicks True (layout []) = Inr (Some [\<lparr>tick_value = Fin 0, tick_y = NaN\<rparr>]) \<and>
   xAxisTicks True (layout []) = Some (Some [\<lparr>tick_i = Fin 0, tick_x = NaN\<rparr>])"
proof -
  have "xAxisLoop (Fin 0) (Fin 0) (Fin 0) [] = Some [\<lparr>tick_i = Fin 0, tick_x = NaN\<rparr>]"
    by (simp add: xAxisLoop.simps jle_def)
  then have "xAxisTicks True (layout []) = Some (Some [\<lparr>tick_i = Fin 0, tick_x = NaN\<rparr>])"
    by (simp add: xAxisTicks_def layout_Nil)
  moreover have "yAxisTicks True (layout []) = Inr (Some [\<lparr>tick_value = Fin 0, tick_y = NaN\<rparr>])"
    by (simp add: yAxisTicks_def layout_Nil arrayFrom_def toLength_def geometry_defs)
  moreover have "getBars barColor highlightColor (layout []) = []"
    by (simp add: getBars_def layout_Nil)
  moreover have "weightedAverageLine True (weightedAverageCost []) (maxCost (layout [])) = None"
    by (simp add: weightedAverageLine_def weightedAverageCost_def jgt_def)
  ultimately show ?thesis by simp
qed

text \<open>
  C5. The quartiles of the empty list are all 0. For every non-empty list of records with
  cost above zero, the costs sorted by \<^verbatim>\<open>(a, b) => a - b\<close> are in non-decreasing order and
  are the costs of the records; q1, median and q3 are the elements of that array at the
  indices \<open>\<lfloor>n / 4\<rfloor>\<close>, \<open>\<lfloor>n / 2\<rfloor>\<close> and \<open>\<lfloor>3 n / 4\<rfloor>\<close>; and q1 is at most the median, which is
  at most q3.
\<close>

theorem C5_quartiles_ordered:
  "quartiles (layout []) = \<lparr>q1 = Fin 0, median = Fin 0, q3 = Fin 0\<rparr> \<and>
   (data \<noteq> [] \<and> (\<forall>r\<in>set data. jgt (cost r) (Fin 0)) \<longrightarrow>
      sorted_wrt jle (sortBy byValue (map cost data)) \<and>
      mset (sortBy byValue (map cost data)) = mset (map cost data) \<and>
      q1 (quartiles (layout data)) = sortBy byValue (map cost data) ! (length data div 4) \<and>
      median (quartiles (layout data)) = sortBy byValue (map cost data) ! (length data div 2) \<and>
      q3 (quartiles (layout data)) = sortBy byValue (map cost data) ! (3 * length data div 4) \<and>
      jle (q1 (quartiles (layout data))) (median (quartiles (layout data))) \<and>
      jle (median (quartiles (layout data))) (q3 (quartiles (layout data))))"
proof -
  have empty: "quartiles (layout []) = \<lparr>q1 = Fin 0, median = Fin 0, q3 = Fin 0\<rparr>"
    by (simp add: layout_quartiles sortBy_def quantile_def elemAt_def)
  have "sorted_wrt jle (sortBy byValue (map cost data)) \<and>
      mset (sortBy byValue (map cost data)) = mset (map cost data) \<and>
      q1 (quartiles (layout data)) = sortBy byValue (map cost data) ! (length data div 4) \<and>
      median (quartiles (layout data)) = sortBy byValue (map cost data) ! (length data div 2) \<and>
      q3 (quartiles (layout data)) = sortBy byValue (map cost data) ! (3 * length data div 4) \<and>
      jle (q1 (quartiles (layout data))) (median (quartiles (layout data))) \<and>
      jle (median (quartiles (layout data))) (q3 (quartiles (layout data)))"
    if ne: "data \<noteq> []" and pos: "\<forall>r\<in>set data. jgt (cost r) (Fin 0)"
  proof -
    let ?cs = "sortBy byValue (map cost data)"
    have len: "length ?cs = length data" by (simp add: length_sortBy)
    from ne have n: "0 < length data" by simp
    have srt: "sorted_wrt jle ?cs" using pos by (rule sorted_costs)
    have nn: "?cs ! i \<noteq> NaN" if "i < length data" for i
    proof -
      from that len have "?cs ! i \<in> set ?cs" by simp
      then have "?cs ! i \<in> set (map cost data)" by (simp only: set_sortBy)
      with pos show ?thesis by (auto simp: jgt_zero_cases)
    qed
    from n have i1: "length data div 4 < length data" by simp
    from n have i2: "length data div 2 < length data" by simp
    from n have i3: "3 * length data div 4 < length data" by arith
    have "jle (?cs ! (length data div 4)) (?cs ! (length data div 2))"
      using srt i2 nn [OF i1] by (intro sorted_wrt_jle_nth) (simp_all add: len)
    moreover have "jle (?cs ! (length data div 2)) (?cs ! (3 * length data div 4))"
      using srt i3 nn [OF i2] by (intro sorted_wrt_jle_nth) (simp_all add: len)
    ultimately show ?thesis
      using srt quartiles_nth [OF ne pos] by (simp add: mset_sortBy)
  qed
  with empty show ?thesis by blast
qed

theorem C5_quartiles_ordered_witness:
  "[item_C, item_A, item_D, item_B] \<noteq> [] \<and>
   list_all (\<lambda>r. jgt (cost r) (Fin 0)) [item_C, item_A, item_D, item_B] \<and>
   quartiles (layout [item_C, item_A, item_D, item_B]) =
     \<lparr>q1 = Fin 10, median = Fin 10, q3 = Fin 20\<rparr> \<and>
   jle (q1 (quartiles (layout [item_C, item_A, item_D, item_B])))
     (median (quartiles (layout [item_C, item_A, item_D, item_B]))) \<and>
   jle (median (quartiles (layout [item_C, item_A, item_D, item_B])))
     (q3 (quartiles (layout [item_C, item_A, item_D, item_B])))"
proof -
  have pos: "\<forall>r\<in>set [item_C, item_A, item_D, item_B]. jgt (cost r) (Fin 0)"
    by (simp add: item_A_def item_B_def item_C_def item_D_def jgt_def)
  have q: "quartiles (layout [item_C, item_A, item_D, item_B]) =
      \<lparr>q1 = Fin 10, median = Fin 10, q3 = Fin 20\<rparr>"
    by (simp add: layout_quartiles sortBy_def byValue_def jsub_def jgt_def quantile_def
        elemAt_def orZero_def truthy_def item_A_def item_B_def item_C_def item_D_def)
  have ne: "[item_C, item_A, item_D, item_B] \<noteq> []" by simp
  from C5_quartiles_ordered [of "[item_C, item_A, item_D, item_B]"] ne pos
  have "jle (q1 (quartiles (layout [item_C, item_A, item_D, item_B])))
      (median (quartiles (layout [item_C, item_A, item_D, item_B]))) \<and>
    jle (median (quartiles (layout [item_C, item_A, item_D, item_B])))
      (q3 (quartiles (layout [item_C, item_A, item_D, item_B])))"
    by blast
  with ne pos q show ?thesis by simp
qed

text \<open>
  C6. With no records and the quartile checkbox ticked, the search finds no entry for
  any of the three quartile values, and all three lines are still returned for drawing,
  each with the x-position \<^verbatim>\<open>NaN\<close>.
\<close>

theorem C6_missing_record_line_NaN:
  "find (\<lambda>item. jge (cost item) (q1 (quartiles (layout [])))) (cumulativeData (layout [])) = None \<and>
   quartileLines True (layout []) =
     Some [\<lparr>line_key = ''q1'', line_x = NaN, line_value = Fin 0\<rparr>,
           \<lparr>line_key = ''median'', line_x = NaN, line_value = Fin 0\<rparr>,
           \<lparr>line_key = ''q3'', line_x = NaN, line_value = Fin 0\<rparr>]"
  by (simp add: layout_Nil quartileLines_def quartileX_def)

text \<open>
  C7. The weighted average cost is the sum of cost times production over the records
  divided by the sum of the productions of the records, which is the total production of
  the layout. Where no production is negative and the total production is 0, the weighted
  average cost is \<^verbatim>\<open>NaN\<close> and its line is not drawn, whatever the checkbox says.
\<close>

theorem C7_weighted_average:
  "weightedAverageCost data =
     jdiv (jsum (map (\<lambda>r. jmul (cost r) (production r)) data)) (jsum (map production data)) \<and>
   jsum (map production data) = totalProduction (layout data) \<and>
   ((\<forall>r\<in>set data. nonneg (production r)) \<and> totalProduction (layout data) = Fin 0 \<longrightarrow>
      weightedAverageCost data = NaN \<and>
      weightedAverageLine showWeightedAverage (weightedAverageCost data) (maxCost (layout data)) =
        None)"
proof -
  have "weightedAverageCost data = NaN \<and>
      weightedAverageLine showWeightedAverage (weightedAverageCost data) (maxCost (layout data)) =
        None"
    if "\<forall>r\<in>set data. nonneg (production r)" and "totalProduction (layout data) = Fin 0"
  proof -
    from that have "weightedAverageCost data = NaN"
      by (intro weightedAverageCost_NaN) (simp_all add: layout_totalProduction)
    then show ?thesis by (simp add: weightedAverageLine_def jgt_def)
  qed
  moreover have "jsum (map production data) = totalProduction (layout data)"
    by (simp add: layout_totalProduction)
  ultimately show ?thesis
    using weightedAverageCost_jsum [of data] by blast
qed

theorem C7_weighted_average_witness:
  "nonneg (production item_Z) \<and> totalProduction (layout [item_Z]) = Fin 0 \<and>
   weightedAverageCost [item_Z] = NaN \<and>
   weightedAverageLine True (weightedAverageCost [item_Z]) (maxCost (layout [item_Z])) = None \<and>
   totalProduction (layout []) = Fin 0 \<and> weightedAverageCost [] = NaN \<and>
   weightedAverageLine True (weightedAverageCost []) (maxCost (layout [])) = None \<and>
   weightedAverageCost [item_C, item_A, item_B] = Fin 15"
proof -
  have z: "\<forall>r\<in>set [item_Z]. nonneg (production r)"
    by (simp add: item_Z_def nonneg_zero)
  have tz: "totalProduction (layout [item_Z]) = Fin 0"
    by (simp add: layout_totalProduction item_Z_def)
  have te: "totalProduction (layout []) = Fin 0"
    by (simp add: layout_totalProduction)
  have avg: "jdiv (jsum (map (\<lambda>r. jmul (cost r) (production r)) [item_C, item_A, item_B]))
      (jsum (map production [item_C, item_A, item_B])) = Fin 15"
    by (simp add: item_A_def item_B_def item_C_def)
  from C7_weighted_average [of "[item_Z]" True] z tz
  have rz: "weightedAverageCost [item_Z] = NaN \<and>
      weightedAverageLine True (weightedAverageCost [item_Z]) (maxCost (layout [item_Z])) = None"
    by blast
  have "\<forall>r\<in>set ([] :: data_item list). nonneg (production r)" by simp
  with C7_weighted_average [of "[]" True] te
  have re: "weightedAverageCost [] = NaN \<and>
      weightedAverageLine True (weightedAverageCost []) (maxCost (layout [])) = None"
    by blast
  from C7_weighted_average [of "[item_C, item_A, item_B]" True] avg
  have ra: "weightedAverageCost [item_C, item_A, item_B] = Fin 15"
    by (simp only:)
  from z have "nonneg (production item_Z)" by simp
  with tz te rz re ra show ?thesis by blast
qed

text \<open>
  C8. In the row \<^verbatim>\<open>A,100,"10",0\<close> the third field is matched with its quotes, the cost
  parsed from it is 0, and the row is dropped; with the quotes around the production
  instead, the row is kept with production 100.
\<close>

theorem C8_quoted_cost_dropped:
  "rowMatch ''A,100,\"10\",0'' = Some [''A'', ''100'', ''\"10\"'', ''0''] \<and>
   mapRow (rowMatch ''A,100,\"10\",0'') 0 =
     Inr \<lparr>name = ''A'', production = Fin 100, cost = Fin 0, highlight = False, id_item = 0\<rparr> \<and>
   handleFileUpload quoted_cost_csv = Inr [] \<and>
   handleFileUpload quoted_production_csv = Inr [item_A]"
proof -
  have m: "rowMatch ''A,100,\"10\",0'' = Some [''A'', ''100'', ''\"10\"'', ''0'']"
    by (simp add: split_defs)
  have r: "mapRow (Some [''A'', ''100'', ''\"10\"'', ''0'']) 0 =
      Inr \<lparr>name = ''A'', production = Fin 100, cost = Fin 0, highlight = False, id_item = 0\<rparr>"
    by (simp add: map_defs)
  have rc: "rows quoted_cost_csv =
      [Some [''name'', ''production'', ''cost'', ''flag''],
       Some [''A'', ''100'', ''\"10\"'', ''0'']]"
    by (simp add: quoted_cost_csv_def split_defs)
  have rp: "rows quoted_production_csv =
      [Some [''name'', ''production'', ''cost'', ''flag''],
       Some [''A'', ''\"100\"'', ''10'', ''0'']]"
    by (simp add: quoted_production_csv_def split_defs)
  have c: "handleFileUpload quoted_cost_csv = Inr []"
    by (simp add: handleFileUpload_def parsedData_def rc map_defs sortBy_def)
  have p: "handleFileUpload quoted_production_csv = Inr [item_A]"
    by (simp add: handleFileUpload_def parsedData_def rp map_defs sortBy_def item_A_def)
  from m r c p show ?thesis by simp
qed

text \<open>
  C9. Every record that the upload handler stores has production and cost above zero.
  For every non-empty list of such records, the total production and the maximal cost of
  the layout are above zero, so no division by them is a division by zero.
\<close>

theorem C9_positive_divisors:
  "(\<exists>data. handleFileUpload csv = Inr data \<and>
      (\<forall>r\<in>set data. jgt (production r) (Fin 0) \<and> jgt (cost r) (Fin 0))) \<and>
   (ds \<noteq> [] \<and> (\<forall>r\<in>set ds. jgt (production r) (Fin 0) \<and> jgt (cost r) (Fin 0)) \<longrightarrow>
      jgt (totalProduction (layout ds)) (Fin 0) \<and> jgt (maxCost (layout ds)) (Fin 0) \<and>
      totalProduction (layout ds) \<noteq> Fin 0 \<and> maxCost (layout ds) \<noteq> Fin 0)"
proof -
  have "\<exists>data. handleFileUpload csv = Inr data \<and>
      (\<forall>r\<in>set data. jgt (production r) (Fin 0) \<and> jgt (cost r) (Fin 0))"
    using handleFileUpload_keepItem [of csv] by (simp add: keepItem_def)
  moreover have "jgt (totalProduction (layout ds)) (Fin 0) \<and> jgt (maxCost (layout ds)) (Fin 0) \<and>
      totalProduction (layout ds) \<noteq> Fin 0 \<and> maxCost (layout ds) \<noteq> Fin 0"
    if "ds \<noteq> []" and "\<forall>r\<in>set ds. jgt (production r) (Fin 0) \<and> jgt (cost r) (Fin 0)"
  proof -
    from that have "jgt (totalProduction (layout ds)) (Fin 0) \<and> jgt (maxCost (layout ds)) (Fin 0)"
      by (intro layout_divisors) (simp_all add: keepItem_def)
    then show ?thesis by (auto simp: jgt_zero_cases)
  qed
  ultimately show ?thesis by blast
qed

theorem C9_positive_divisors_witness:
  "handleFileUpload example_csv = Inr [item_C, item_A, item_D, item_B] \<and>
   [item_C, item_A, item_D, item_B] \<noteq> [] \<and>
   list_all (\<lambda>r. jgt (production r) (Fin 0) \<and> jgt (cost r) (Fin 0))
     [item_C, item_A, item_D, item_B] \<and>
   jgt (totalProduction (layout [item_C, item_A, item_D, item_B])) (Fin 0) \<and>
   jgt (maxCost (layout [item_C, item_A, item_D, item_B])) (Fin 0)"
  using C9_positive_divisors [of example_csv "[item_C, item_A, item_D, item_B]"]
  by (simp add: example_handleFileUpload)

text \<open>
  C10. For every non-empty list of records with production and cost above zero, each of
  q1, median and q3 is the cost of a record of the list, and the search for the first
  entry with a cost at least that value finds one. Where the total production that the
  layout computes is finite, the x-position of each of the three quartile lines is a
  finite number. (A production of \<^verbatim>\<open>Infinity\<close> makes that total infinite, and so does, in
  the arithmetic of the program, a running sum that overflows.)
\<close>

theorem C10_quartile_lines_defined:
  assumes "data \<noteq> []"
    and "\<forall>r\<in>set data. jgt (production r) (Fin 0) \<and> jgt (cost r) (Fin 0)"
  shows "(\<forall>v\<in>{q1 (quartiles (layout data)), median (quartiles (layout data)),
              q3 (quartiles (layout data))}.
            v \<in> set (map cost data) \<and>
            find (\<lambda>item. jge (cost item) v) (cumulativeData (layout data)) \<noteq> None \<and>
            (isFin (totalProduction (layout data)) \<longrightarrow> isFin (quartileX (layout data) v))) \<and>
         (\<exists>ls. quartileLines True (layout data) = Some ls \<and> length ls = 3 \<and>
            (isFin (totalProduction (layout data)) \<longrightarrow> (\<forall>m\<in>set ls. isFin (line_x m))))"
proof -
  from assms(2) have pos: "\<forall>r\<in>set data. jgt (cost r) (Fin 0)"
    and ppos: "\<forall>r\<in>set data. jgt (production r) (Fin 0)"
    by auto
  have fin: "\<forall>r\<in>set data. jgt (production r) (Fin 0) \<and> isFin (production r)"
    if "isFin (totalProduction (layout data))"
  proof -
    from ppos have "\<forall>p\<in>set (map production data). nonneg p"
      by (auto dest: jgt_zero_nonneg)
    moreover from that have "isFin (jsum (map production data))"
      by (simp add: layout_totalProduction)
    ultimately have "\<forall>p\<in>set (map production data). isFin p"
      by (rule isFin_jsum_nonneg)
    with ppos show ?thesis by simp
  qed
  have one: "v \<in> set (map cost data) \<and>
      find (\<lambda>item. jge (cost item) v) (cumulativeData (layout data)) \<noteq> None \<and>
      (isFin (totalProduction (layout data)) \<longrightarrow> isFin (quartileX (layout data) v))"
    if "v \<in> {q1 (quartiles (layout data)), median (quartiles (layout data)),
              q3 (quartiles (layout data))}" for v
  proof -
    from that quartiles_in_costs [OF assms(1) pos] have mem: "v \<in> set (map cost data)"
      by auto
    with pos have nn: "v \<noteq> NaN" by (auto simp: jgt_zero_cases)
    from find_quartile [OF mem nn]
    have "find (\<lambda>item. jge (cost item) v) (cumulativeData (layout data)) \<noteq> None"
      by auto
    moreover have "isFin (quartileX (layout data) v)" if "isFin (totalProduction (layout data))"
      using quartileX_isFin [OF assms(1) fin [OF that] mem nn] .
    ultimately show ?thesis using mem by simp
  qed
  then have "isFin (totalProduction (layout data)) \<longrightarrow>
      (\<forall>m\<in>set (the (quartileLines True (layout data))). isFin (line_x m))"
    by (simp add: quartileLines_def)
  with one show ?thesis
    by (simp add: quartileLines_def)
qed

theorem C10_quartile_lines_defined_witness:
  "[item_C, item_A, item_B] \<noteq> [] \<and>
   list_all (\<lambda>r. jgt (production r) (Fin 0) \<and> jgt (cost r) (Fin 0)) [item_C, item_A, item_B] \<and>
   isFin (totalProduction (layout [item_C, item_A, item_B])) \<and>
   quartileLines True (layout [item_C, item_A, item_B]) =
     Some [\<lparr>line_key = ''q1'', line_x = Fin 80, line_value = Fin 5\<rparr>,
           \<lparr>line_key = ''median'', line_x = Fin (1650 / 7), line_value = Fin 10\<rparr>,
           \<lparr>line_key = ''q3'', line_x = Fin (3830 / 7), line_value = Fin 20\<rparr>] \<and>
   isFin (quartileX (layout [item_C, item_A, item_B])
     (q1 (quartiles (layout [item_C, item_A, item_B])))) \<and>
   isFin (quartileX (layout [item_C, item_A, item_B])
     (median (quartiles (layout [item_C, item_A, item_B])))) \<and>
   isFin (quartileX (layout [item_C, item_A, item_B])
     (q3 (quartiles (layout [item_C, item_A, item_B]))))"
proof -
  have ne: "[item_C, item_A, item_B] \<noteq> []" by simp
  have ok: "\<forall>r\<in>set [item_C, item_A, item_B]. jgt (production r) (Fin 0) \<and> jgt (cost r) (Fin 0)"
    by (simp add: item_A_def item_B_def item_C_def jgt_def)
  have tot: "isFin (totalProduction (layout [item_C, item_A, item_B]))"
    by (simp add: layout_totalProduction isFin_def item_A_def item_B_def item_C_def)
  have lines: "quartileLines True (layout [item_C, item_A, item_B]) =
     Some [\<lparr>line_key = ''q1'', line_x = Fin 80, line_value = Fin 5\<rparr>,
           \<lparr>line_key = ''median'', line_x = Fin (1650 / 7), line_value = Fin 10\<rparr>,
           \<lparr>line_key = ''q3'', line_x = Fin (3830 / 7), line_value = Fin 20\<rparr>]"
    by (simp add: quartileLines_def quartileX_def layout_def Let_def sortBy_def byValue_def
        jsub_def jgt_def jge_def jle_def quantile_def elemAt_def orZero_def truthy_def
        extend_fields chartWidth_def SVG_WIDTH_def MARGIN_left_def MARGIN_right_def
        floor_rat_numeral item_A_def item_B_def item_C_def)
  from C10_quartile_lines_defined [OF ne ok] tot
  have "isFin (quartileX (layout [item_C, item_A, item_B])
       (q1 (quartiles (layout [item_C, item_A, item_B])))) \<and>
     isFin (quartileX (layout [item_C, item_A, item_B])
       (median (quartiles (layout [item_C, item_A, item_B])))) \<and>
     isFin (quartileX (layout [item_C, item_A, item_B])
       (q3 (quartiles (layout [item_C, item_A, item_B]))))"
    by simp
  with ne ok tot lines show ?thesis by simp
qed

text \<open>
  C10, as stated, fails. The text with the rows \<^verbatim>\<open>I,Infinity,5,0\<close> and \<^verbatim>\<open>J,100,10,0\<close> is
  stored as two records, the first with the production \<^verbatim>\<open>Infinity\<close>, which is above zero.
  The total production is \<^verbatim>\<open>Infinity\<close>; the search finds the second record for the median
  and for q3, and the x-position of both lines is \<^verbatim>\<open>Infinity / Infinity\<close> scaled, which is
  \<^verbatim>\<open>NaN\<close>.
\<close>

theorem C10_infinite_production_counterexample:
  "handleFileUpload infinite_production_csv = Inr [item_I, item_J] \<and>
   [item_I, item_J] \<noteq> [] \<and>
   totalProduction (layout [item_I, item_J]) = PInf \<and>
   find (\<lambda>item. jge (cost item) (median (quartiles (layout [item_I, item_J]))))
     (cumulativeData (layout [item_I, item_J])) \<noteq> None \<and>
   quartileLines True (layout [item_I, item_J]) =
     Some [\<lparr>line_key = ''q1'', line_x = Fin 80, line_value = Fin 5\<rparr>,
           \<lparr>line_key = ''median'', line_x = NaN, line_value = Fin 10\<rparr>,
           \<lparr>line_key = ''q3'', line_x = NaN, line_value = Fin 10\<rparr>]"
proof -
  have l: "layout [item_I, item_J] =
      \<lparr>cumulativeData =
         [data_item.extend item_I \<lparr>cumulativeProduction = Fin 0\<rparr>,
          data_item.extend item_J \<lparr>cumulativeProduction = PInf\<rparr>],
       maxCost = Fin 10, totalProduction = PInf,
       quartiles = \<lparr>q1 = Fin 5, median = Fin 10, q3 = Fin 10\<rparr>\<rparr>"
    by (simp add: layout_def Let_def sortBy_def byValue_def jsub_def jgt_def quantile_def
        elemAt_def orZero_def truthy_def Math_max_def extend_fields floor_rat_numeral
        item_I_def item_J_def)
  have "quartileLines True (layout [item_I, item_J]) =
     Some [\<lparr>line_key = ''q1'', line_x = Fin 80, line_value = Fin 5\<rparr>,
           \<lparr>line_key = ''median'', line_x = NaN, line_value = Fin 10\<rparr>,
           \<lparr>line_key = ''q3'', line_x = NaN, line_value = Fin 10\<rparr>]"
    unfolding l
    by (simp add: quartileLines_def quartileX_def jge_def jle_def extend_fields
        chartWidth_def SVG_WIDTH_def MARGIN_left_def MARGIN_right_def jsub_def
        item_I_def item_J_def)
  moreover have "find (\<lambda>item. jge (cost item) (median (quartiles (layout [item_I, item_J]))))
     (cumulativeData (layout [item_I, item_J])) \<noteq> None"
    unfolding l by (simp add: jge_def jle_def extend_fields item_I_def item_J_def)
  ultimately show ?thesis
    by (simp add: infinite_production_handleFileUpload l)
qed

end
